theory Spec2Isabelle
  imports Complex_Main "HOL-Library.Log_Nat"
begin

section \<open>Python values and exceptions\<close>

text \<open>
  The notebook \<open>Solutions.ipynb\<close> defines two functions, \<open>unify_datatype\<close> and
  \<open>infer_schema_nt\<close>. Both inspect only the run-time type of a cell value, the value of an
  integer, the \<open>str\<close> of a \<open>Decimal\<close> and the first character of a string. A cell value is
  therefore a tagged value:
  \<^item> \<open>PFloat\<close>: a \<open>float\<close>, carried by its \<open>repr\<close> (the code never reads the number);
  \<^item> \<open>PInt\<close>: an \<open>int\<close> (unbounded);
  \<^item> \<open>PBool\<close>: a \<open>bool\<close>; in Python \<open>bool\<close> is a subclass of \<open>int\<close>, so
    \<open>isinstance(True, int)\<close> holds and \<open>abs(True)\<close> is \<open>1\<close>;
  \<^item> \<open>PDecimal\<close>: a \<open>decimal.Decimal\<close>, carried by its canonical string \<open>str(v)\<close>, the only
    thing the code reads of it;
  \<^item> \<open>PStr\<close>: a \<open>str\<close>;
  \<^item> \<open>PFraction\<close>: a \<open>fractions.Fraction\<close>, numerator and denominator;
  \<^item> \<open>POther\<close>: a value of any other type, carried by its \<open>repr\<close>.
\<close>

datatype pyval =
    PFloat string
  | PInt int
  | PBool bool
  | PDecimal string
  | PStr string
  | PFraction int int
  | POther string

text \<open>
  The exceptions of the two functions: the \<open>ValueError\<close>s raised explicitly (with their
  message), the \<open>IndexError\<close> of an out-of-range subscript (with the interpreter's message,
  which tells the subscript of a string from that of a tuple or a list), and the
  \<open>AttributeError\<close> of reading an attribute that an object does not have.
\<close>

datatype exn = ValueError string | IndexError string | AttributeError string

fun message :: "exn \<Rightarrow> string" where
  "message (ValueError m) = m"
| "message (IndexError m) = m"
| "message (AttributeError m) = m"

text \<open>The four failures of the specification, as \<open>infer_schema_nt\<close> raises them.\<close>

definition InsufficientData :: exn where
  "InsufficientData = ValueError ''At least two rows are required for inference''"

definition NotUniformRecordShape :: exn where
  "NotUniformRecordShape =
     ValueError ''The dataset does not appear to be exclusively namedtuples''"

definition MixedRecordTypes :: exn where
  "MixedRecordTypes = ValueError ''The dataset has namedtuples of varying types''"

definition UnunifiableColumn :: "string \<Rightarrow> exn" where
  "UnunifiableColumn col = ValueError (''Could not find unified datatype for column '' @ col)"

section \<open>Formatting integers\<close>

text \<open>The decimal text of an integer, as an f-string prints it.\<close>

definition digit_char :: "nat \<Rightarrow> char" where
  "digit_char d = ''0123456789'' ! d"

fun str_nat :: "nat \<Rightarrow> string" where
  "str_nat n = (if n < 10 then [digit_char n] else str_nat (n div 10) @ [digit_char (n mod 10)])"

declare str_nat.simps [simp del]

definition str_int :: "int \<Rightarrow> string" where
  "str_int i = (if i < 0 then CHR ''-'' # str_nat (nat (- i)) else str_nat (nat i))"

section \<open>The Type Unifier: \<open>unify_datatype\<close>\<close>

subsection \<open>The \<open>isinstance\<close> tests\<close>

fun is_float :: "pyval \<Rightarrow> bool" where
  "is_float (PFloat _) = True"
| "is_float _ = False"

text \<open>\<open>isinstance(v, int)\<close>: true of an \<open>int\<close> and of a \<open>bool\<close>.\<close>

fun is_int :: "pyval \<Rightarrow> bool" where
  "is_int (PInt _) = True"
| "is_int (PBool _) = True"
| "is_int _ = False"

fun is_decimal :: "pyval \<Rightarrow> bool" where
  "is_decimal (PDecimal _) = True"
| "is_decimal _ = False"

fun is_fraction :: "pyval \<Rightarrow> bool" where
  "is_fraction (PFraction _ _) = True"
| "is_fraction _ = False"

subsection \<open>Integers: \<open>max(abs(v) for v in vals).bit_length()\<close>\<close>

text \<open>\<open>abs(v)\<close> of a value that passed \<open>isinstance(v, int)\<close>.\<close>

fun abs_val :: "pyval \<Rightarrow> int" where
  "abs_val (PInt i) = \<bar>i\<bar>"
| "abs_val (PBool b) = (if b then 1 else 0)"
| "abs_val _ = 0"

text \<open>\<open>max\<close> of an iterable raises \<open>ValueError\<close> when the iterable is empty.\<close>

fun py_max :: "int list \<Rightarrow> exn + int" where
  "py_max [] = Inl (ValueError ''max() arg is an empty sequence'')"
| "py_max (x # xs) = Inr (fold max xs x)"

text \<open>
  \<open>int.bit_length\<close>: the number of binary digits of the absolute value, 0 for 0.
\<close>

function bit_length :: "int \<Rightarrow> nat" where
  "bit_length i = (if i = 0 then 0 else Suc (bit_length (\<bar>i\<bar> div 2)))"
  by pat_completeness auto
termination
  by (relation "measure (\<lambda>i. nat \<bar>i\<bar>)") auto

declare bit_length.simps [simp del]

text \<open>
  \<open>from math import log10\<close> and \<open>1 + log10(...)\<close> are floating-point operations of the
  platform: \<open>math.log10\<close> applied to an \<open>int\<close> returns a double, and the sum is a double
  addition, which rounds. Neither is defined by the repository, and the C library's \<open>log10\<close>
  is not specified bit for bit. They are parameters of the model: a double is the real
  number it denotes, \<open>math_log10 fp n\<close> is the double that \<open>log10(n)\<close> returns for a positive
  \<open>int\<close>, and \<open>float_add fp x y\<close> is the double that \<open>x + y\<close> evaluates to.
\<close>

record float_ops =
  math_log10 :: "int \<Rightarrow> real"
  float_add :: "real \<Rightarrow> real \<Rightarrow> real"

text \<open>\<open>int(x)\<close> of a finite double: truncation towards zero.\<close>

definition int_of_float :: "real \<Rightarrow> int" where
  "int_of_float x = (if 0 \<le> x then \<lfloor>x\<rfloor> else \<lceil>x\<rceil>)"

text \<open>
  \<open>int(1 + log10(2**size))\<close>. The power is an exact \<open>int\<close>. The source's \<open>size\<close> is \<open>sz\<close>
  here (\<open>size\<close> is a constant of HOL).
\<close>

definition decimal_digits :: "float_ops \<Rightarrow> nat \<Rightarrow> int" where
  "decimal_digits fp sz = int_of_float (float_add fp 1 (math_log10 fp (2 ^ sz)))"

definition int_type :: "float_ops \<Rightarrow> nat \<Rightarrow> string" where
  "int_type fp sz =
     (if sz \<le> 16 then ''SMALLINT''
      else if sz \<le> 32 then ''INTEGER''
      else if sz \<le> 64 then ''BIGINT''
      else ''DECIMAL('' @ str_int (decimal_digits fp sz) @ '')'')"

subsection \<open>Decimals: the positions of the decimal point\<close>

text \<open>\<open>str.find\<close> of a one-character pattern: the lowest index, or \<open>-1\<close>.\<close>

fun find_char :: "char \<Rightarrow> string \<Rightarrow> int" where
  "find_char c [] = - 1"
| "find_char c (x # xs) =
     (if x = c then 0 else (let r = find_char c xs in if r < 0 then - 1 else r + 1))"

text \<open>One pass of the loop over \<open>vals\<close>; the state is \<open>(to_right, to_left)\<close>.\<close>

fun decimal_step :: "int \<times> int \<Rightarrow> pyval \<Rightarrow> int \<times> int" where
  "decimal_step (to_right, to_left) (PDecimal v_str) =
     (max to_right (find_char CHR ''.'' (rev v_str)), max to_left (find_char CHR ''.'' v_str))"
| "decimal_step (to_right, to_left) _ = (to_right, to_left)"

definition decimal_type :: "pyval list \<Rightarrow> string" where
  "decimal_type vals =
     (let (to_right, to_left) = foldl decimal_step (0, 1) vals;
          to_right = to_right + 1
      in ''DECIMAL('' @ str_int (to_left + to_right) @ '', '' @ str_int to_right @ '')'')"

subsection \<open>Currency strings\<close>

text \<open>
  \<open>all(isinstance(v, str) and v[0] == '$' for v in vals)\<close>. \<open>all\<close> stops at the first false
  element; \<open>v[0]\<close> of the empty string raises \<open>IndexError\<close>.
\<close>

fun all_currency :: "pyval list \<Rightarrow> exn + bool" where
  "all_currency [] = Inr True"
| "all_currency (PStr s # vs) =
     (if s = [] then Inl (IndexError ''string index out of range'')
      else if hd s = CHR ''$'' then all_currency vs
      else Inr False)"
| "all_currency (_ # vs) = Inr False"

subsection \<open>The rules in order\<close>

definition unify_datatype :: "float_ops \<Rightarrow> pyval list \<Rightarrow> exn + string" where
  "unify_datatype fp vals =
     (if list_all is_float vals then Inr ''DOUBLE PRECISION''
      else if list_all is_int vals then
        (case py_max (map abs_val vals) of
           Inl e \<Rightarrow> Inl e
         | Inr m \<Rightarrow> Inr (int_type fp (bit_length m)))
      else if list_all is_decimal vals then Inr (decimal_type vals)
      else
        (case all_currency vals of
           Inl e \<Rightarrow> Inl e
         | Inr True \<Rightarrow> Inr ''DECIMAL(10, 2)''
         | Inr False \<Rightarrow>
             if list_all is_fraction vals then Inr ''DOUBLE PRECISION''
             else Inr ''TEXT''))"

section \<open>The Schema Inferrer: \<open>infer_schema_nt\<close>\<close>

subsection \<open>Batch elements\<close>

text \<open>
  An element of the batch is any Python object. The code reads of it: whether it is an
  instance of \<open>tuple\<close>, whether it has an attribute \<open>_fields\<close> and its value
  (\<open>fields_attr\<close>, \<open>None\<close> when the attribute is missing), the name of its class, and its
  items by position. \<open>class_id\<close> is the identity of the class object, which the code never
  reads: two classes may have the same \<open>__name__\<close>.
\<close>

record pyobj =
  class_id :: nat
  class_name :: string
  is_tuple :: bool
  fields_attr :: "string list option"
  items :: "pyval list"

subsection \<open>Gathering a column\<close>

text \<open>\<open>row[n]\<close> with \<open>n\<close> from \<open>enumerate\<close> (never negative).\<close>

definition getitem :: "pyobj \<Rightarrow> nat \<Rightarrow> exn + pyval" where
  "getitem row n =
     (if n < length (items row) then Inr (items row ! n)
      else Inl (IndexError ''tuple index out of range''))"

text \<open>\<open>[row[n] for row in dataset]\<close>: the first failing subscript ends the comprehension.\<close>

fun gather :: "pyobj list \<Rightarrow> nat \<Rightarrow> exn + pyval list" where
  "gather [] n = Inr []"
| "gather (row # rows) n =
     (case getitem row n of
        Inl e \<Rightarrow> Inl e
      | Inr v \<Rightarrow> (case gather rows n of Inl e \<Rightarrow> Inl e | Inr vs \<Rightarrow> Inr (v # vs)))"

subsection \<open>The dictionary \<open>types\<close>\<close>

text \<open>
  A Python \<open>dict\<close> keeps its keys in insertion order; storing under a key already present
  replaces the value and leaves the key where it is.
\<close>

fun dict_set :: "('k \<times> 'v) list \<Rightarrow> 'k \<Rightarrow> 'v \<Rightarrow> ('k \<times> 'v) list" where
  "dict_set [] k v = [(k, v)]"
| "dict_set ((k', v') # kvs) k v =
     (if k' = k then (k, v) # kvs else (k', v') # dict_set kvs k v)"

subsection \<open>The loop over the columns\<close>

text \<open>
  \<open>for n, col in enumerate(fields)\<close>. The arguments are the floating-point operations,
  the dataset, the index \<open>n\<close>, the fields still to visit, the dictionary \<open>types\<close> and the number of calls of
  \<open>unify_datatype\<close> made so far; the result carries that number with the dictionary or the
  exception.
\<close>

fun infer_columns ::
  "float_ops \<Rightarrow> pyobj list \<Rightarrow> nat \<Rightarrow> string list \<Rightarrow> (string \<times> string) list \<Rightarrow> nat
     \<Rightarrow> nat \<times> (exn + (string \<times> string) list)" where
  "infer_columns fp dataset n [] types calls = (calls, Inr types)"
| "infer_columns fp dataset n (col # cols) types calls =
     (case gather dataset n of
        Inl e \<Rightarrow> (calls, Inl e)
      | Inr colvals \<Rightarrow>
          (case unify_datatype fp colvals of
             Inl e \<Rightarrow> (Suc calls, Inl e)
           | Inr coldef \<Rightarrow>
               if coldef = [] then (Suc calls, Inl (UnunifiableColumn col))
               else infer_columns fp dataset (Suc n) cols (dict_set types col coldef)
                      (Suc calls)))"

subsection \<open>Formatting the statement\<close>

text \<open>\<open>s.rstrip(',')\<close> removes every trailing comma.\<close>

definition rstrip :: "char \<Rightarrow> string \<Rightarrow> string" where
  "rstrip c s = rev (dropWhile (\<lambda>x. x = c) (rev s))"

text \<open>\<open>sep.join(xs)\<close>.\<close>

fun join :: "string \<Rightarrow> string list \<Rightarrow> string" where
  "join sep [] = []"
| "join sep [x] = x"
| "join sep (x # y # ys) = x @ sep @ join sep (y # ys)"

definition newline :: string where
  "newline = [CHR 0x0A]"

definition column_line :: "string \<times> string \<Rightarrow> string" where
  "column_line = (\<lambda>(col, typ). ''    '' @ col @ '' '' @ typ @ '','')"

definition format_sql :: "string \<Rightarrow> (string \<times> string) list \<Rightarrow> string" where
  "format_sql tablename types =
     (let sql = [''CREATE TABLE '' @ tablename @ '' (''] @ map column_line types;
          sql = sql[length sql - 1 := rstrip CHR '','' (sql ! (length sql - 1))];
          sql = sql @ ['');'']
      in join newline sql)"

subsection \<open>The function\<close>

text \<open>
  The first component of the result counts the calls of \<open>unify_datatype\<close> made before the
  function returned or raised.
\<close>

definition infer_schema_nt_run :: "float_ops \<Rightarrow> pyobj list \<Rightarrow> nat \<times> (exn + string)" where
  "infer_schema_nt_run fp dataset =
     (if length dataset < 2 then (0, Inl InsufficientData)
      else if \<not> list_all (\<lambda>t. is_tuple t \<and> fields_attr t \<noteq> None) dataset then
        (0, Inl NotUniformRecordShape)
      else if \<not> card (set (map class_name dataset)) = 1 then (0, Inl MixedRecordTypes)
      else
        (case dataset of
           [] \<Rightarrow> (0, Inl (IndexError ''list index out of range''))
         | row0 # _ \<Rightarrow>
             (case fields_attr row0 of
                None \<Rightarrow> (0, Inl (AttributeError ''_fields''))
              | Some fs \<Rightarrow>
                  (case infer_columns fp dataset 0 fs [] 0 of
                     (calls, Inl e) \<Rightarrow> (calls, Inl e)
                   | (calls, Inr types) \<Rightarrow> (calls, Inr (format_sql (class_name row0) types))))))"

definition infer_schema_nt :: "float_ops \<Rightarrow> pyobj list \<Rightarrow> exn + string" where
  "infer_schema_nt fp dataset = snd (infer_schema_nt_run fp dataset)"

definition unify_calls :: "float_ops \<Rightarrow> pyobj list \<Rightarrow> nat" where
  "unify_calls fp dataset = fst (infer_schema_nt_run fp dataset)"

section \<open>Definitions that follow the specification\<close>

text \<open>
  The precision the specification gives for an integer column wider than 64 bits:
  \<open>ceil(log10(2^bitlength)) + 1\<close>.
\<close>

definition spec_decimal_precision :: "nat \<Rightarrow> int" where
  "spec_decimal_precision b = \<lceil>log 10 (2 ^ b)\<rceil> + 1"

text \<open>
  The digit counts of the specification, on the canonical string of a decimal: an optional
  sign, the digits left of the decimal point, then, when there is a decimal point, the digits
  right of it.
\<close>

definition is_digit :: "char \<Rightarrow> bool" where
  "is_digit c = (c \<in> set ''0123456789'')"

definition unsigned :: "string \<Rightarrow> string" where
  "unsigned s = (case s of [] \<Rightarrow> [] | c # r \<Rightarrow> if c = CHR ''-'' then r else s)"

definition digits_left :: "string \<Rightarrow> nat" where
  "digits_left s = length (takeWhile is_digit (unsigned s))"

definition digits_right :: "string \<Rightarrow> nat" where
  "digits_right s =
     (case dropWhile is_digit (unsigned s) of
        [] \<Rightarrow> 0
      | c # r \<Rightarrow> if c = CHR ''.'' then length (takeWhile is_digit r) else 0)"

fun decimal_str :: "pyval \<Rightarrow> string" where
  "decimal_str (PDecimal s) = s"
| "decimal_str _ = []"

text \<open>
  The type the specification gives for a column of decimals: the fractional digits are the
  largest count right of the point plus one, the total digits the largest count left of the
  point plus the fractional digits.
\<close>

definition spec_decimal_type :: "pyval list \<Rightarrow> string" where
  "spec_decimal_type vals =
     (let s = Max (set (map (digits_right \<circ> decimal_str) vals)) + 1;
          t = Max (set (map (digits_left \<circ> decimal_str) vals)) + s
      in ''DECIMAL('' @ str_int (int t) @ '', '' @ str_int (int s) @ '')'')"

text \<open>The values of column \<open>n\<close>, one per record, in record order.\<close>

definition column :: "pyobj list \<Rightarrow> nat \<Rightarrow> pyval list" where
  "column dataset n = map (\<lambda>row. items row ! n) dataset"

text \<open>
  The column lines of the statement as the specification describes them: one line per
  column, four spaces, the column, a space, the type and a comma, the comma left out on the
  last line.
\<close>

fun sql_lines :: "(string \<times> string) list \<Rightarrow> string list" where
  "sql_lines [] = []"
| "sql_lines [(col, typ)] = [''    '' @ col @ '' '' @ typ]"
| "sql_lines ((col, typ) # rest) = (''    '' @ col @ '' '' @ typ @ '','') # sql_lines rest"

definition spec_statement :: "string \<Rightarrow> (string \<times> string) list \<Rightarrow> string" where
  "spec_statement name types =
     join newline ((''CREATE TABLE '' @ name @ '' ('') # sql_lines types @ ['');''])"

section \<open>Exact arithmetic, to compare the floating-point result with\<close>

text \<open>
  The number of decimal digits of a positive integer, by repeated division. For \<open>2 ^ b\<close> it
  is \<open>floor(log10(2^b)) + 1\<close> (lemma \<open>floor_log10_length\<close> below).
\<close>

function decimal_length :: "int \<Rightarrow> nat" where
  "decimal_length i = (if i < 10 then 1 else Suc (decimal_length (i div 10)))"
  by pat_completeness auto
termination
  by (relation "measure nat") auto

declare decimal_length.simps [simp del]

text \<open>
  A check, by integer arithmetic, that powers of two stay away from the powers of ten:
  \<open>margins_ok n (2 ^ b) (10 ^ k)\<close> holds when, for each of the \<open>n\<close> exponents from \<open>b\<close> on,
  the power of two lies between \<open>1.0001\<close> times a power of ten and the next power of ten
  divided by \<open>1.0001\<close>.
\<close>

fun margins_ok :: "nat \<Rightarrow> int \<Rightarrow> int \<Rightarrow> bool" where
  "margins_ok 0 p2 p10 = True"
| "margins_ok (Suc n) p2 p10 =
     (10001 * p10 \<le> 10000 * p2 \<and> 10001 * p2 \<le> 100000 * p10 \<and>
      margins_ok n (2 * p2) (if 10 * p10 \<le> 2 * p2 then 10 * p10 else p10))"

text \<open>
  Floating point without rounding: \<open>log10\<close> and the sum are exact. It is one platform that
  meets the accuracy hypotheses below, and serves to run a theorem that has such a
  hypothesis at a concrete input; it is not the arithmetic of the code.
\<close>

definition ideal_float :: float_ops where
  "ideal_float = \<lparr>math_log10 = (\<lambda>n. log 10 (of_int n)), float_add = (\<lambda>x y. x + y)\<rparr>"

section \<open>The sample data of the notebook\<close>

text \<open>
  A record of a class made by \<open>namedtuple\<close>: an instance of \<open>tuple\<close> whose class has the
  attribute \<open>_fields\<close>.
\<close>

definition namedtuple :: "nat \<Rightarrow> string \<Rightarrow> string list \<Rightarrow> pyval list \<Rightarrow> pyobj" where
  "namedtuple cid name fs vs =
     \<lparr>class_id = cid, class_name = name, is_tuple = True, fields_attr = Some fs, items = vs\<rparr>"



text \<open>An element that is not a tuple and has no \<open>_fields\<close>: a \<open>dict\<close>.\<close>

definition a_dict :: pyobj where
  "a_dict = \<lparr>class_id = 0, class_name = ''dict'', is_tuple = False, fields_attr = None,
              items = []\<rparr>"

section \<open>Facts about the Type Unifier\<close>

subsection \<open>Bit length and decimal digits\<close>

lemma bit_length_le_iff: "bit_length i \<le> k \<longleftrightarrow> \<bar>i\<bar> < 2 ^ k"
proof (induction k arbitrary: i)
  case 0
  show ?case by (subst bit_length.simps) auto
next
  case (Suc k)
  have "\<bar>\<bar>i\<bar> div 2\<bar> = \<bar>i\<bar> div 2" by simp
  with Suc [of "\<bar>i\<bar> div 2"]
  have "bit_length (\<bar>i\<bar> div 2) \<le> k \<longleftrightarrow> \<bar>i\<bar> div 2 < 2 ^ k" by simp
  then show ?case
    by (subst bit_length.simps) auto
qed

lemma bit_length_eq_iff: "bit_length i = Suc k \<longleftrightarrow> 2 ^ k \<le> \<bar>i\<bar> \<and> \<bar>i\<bar> < 2 ^ Suc k"
proof -
  have "bit_length i = Suc k \<longleftrightarrow> bit_length i \<le> Suc k \<and> \<not> bit_length i \<le> k" by arith
  then show ?thesis by (simp only: bit_length_le_iff) auto
qed

lemma decimal_length_floorlog: "0 < i \<Longrightarrow> decimal_length i = floorlog 10 (nat i)"
proof (induction i rule: decimal_length.induct)
  case (1 i)
  show ?case
  proof (cases "i < 10")
    case True
    with 1 show ?thesis
      by (subst decimal_length.simps, subst compute_floorlog) (simp add: floorlog_def)
  next
    case False
    then have "0 < i div 10" by simp
    with 1 False have "decimal_length (i div 10) = floorlog 10 (nat (i div 10))" by simp
    moreover have "nat (i div 10) = nat i div 10" using False by (simp add: nat_div_distrib)
    ultimately show ?thesis using False
      by (subst decimal_length.simps, subst compute_floorlog) simp
  qed
qed

lemma floor_log10_length: "\<lfloor>log 10 (2 ^ sz)\<rfloor> + 1 = int (decimal_length (2 ^ sz))"
proof -
  have "0 \<le> log 10 (2 ^ sz)" by (simp add: zero_le_log_cancel_iff)
  then have "\<lfloor>log 10 (2 ^ sz)\<rfloor> + 1 = int (floorlog 10 (2 ^ sz))"
    unfolding floorlog_def by simp
  also have "floorlog 10 (2 ^ sz) = decimal_length (2 ^ sz)"
    using decimal_length_floorlog [of "2 ^ sz"] by (simp add: nat_power_eq)
  finally show ?thesis .
qed

text \<open>A power of two other than 1 is not a power of ten.\<close>

lemma pow2_not_pow10: "0 < b \<Longrightarrow> (2::nat) ^ b \<noteq> 10 ^ k"
proof
  assume b: "0 < b" and eq: "(2::nat) ^ b = 10 ^ k"
  show False
  proof (cases k)
    case 0
    with eq b show False by simp
  next
    case (Suc j)
    then have "(5::nat) dvd 10 ^ k" by simp
    with eq have "(5::nat) dvd 2 ^ b" by simp
    moreover have "coprime (5::nat) (2 ^ b)" by simp
    ultimately show False by fastforce
  qed
qed

lemma log10_pow2_not_int: "0 < b \<Longrightarrow> log 10 (2 ^ b) \<noteq> of_int z"
proof
  assume b: "0 < b" and eq: "log 10 (2 ^ b) = of_int z"
  have pos: "0 < log 10 (2 ^ b)" using b by simp
  with eq have "0 \<le> z" by simp
  then obtain k where z: "z = int k" using nonneg_int_cases by blast
  from eq z have "log 10 (2 ^ b) = real k" by simp
  then have "(2::real) ^ b = 10 powr real k"
    by (metis log_powr_cancel powr_log_cancel zero_less_numeral zero_less_power one_less_numeral_iff semiring_norm(76) num.distinct(1) less_numeral_extra(4) numeral_eq_one_iff)
  then have "(2::real) ^ b = 10 ^ k" by (simp add: powr_realpow)
  then have "real ((2::nat) ^ b) = real (10 ^ k)" by simp
  then have "(2::nat) ^ b = 10 ^ k" by (simp only: of_nat_eq_iff)
  with pow2_not_pow10 [OF b, of k] show False by blast
qed

lemma floor_log10_pow2: "0 < b \<Longrightarrow> \<lfloor>log 10 (2 ^ b)\<rfloor> + 1 = \<lceil>log 10 (2 ^ b)\<rceil>"
proof -
  assume b: "0 < b"
  have "log 10 (2 ^ b) \<noteq> of_int \<lfloor>log 10 (2 ^ b)\<rfloor>" using log10_pow2_not_int [OF b] by blast
  then show ?thesis by (simp add: ceiling_altdef)
qed

lemma pow2_less_pow10: "(2::int) ^ b < 10 ^ nat (\<lfloor>log 10 (2 ^ b)\<rfloor> + 1)"
proof -
  define p where "p = nat (\<lfloor>log 10 (2 ^ b)\<rfloor> + 1)"
  have pos: "0 \<le> log 10 (2 ^ b)" by (simp add: zero_le_log_cancel_iff)
  then have "0 \<le> \<lfloor>log 10 (2 ^ b)\<rfloor>" by simp
  then have "real p = of_int \<lfloor>log 10 (2 ^ b)\<rfloor> + 1" by (simp add: p_def)
  moreover have "log 10 (2 ^ b) < of_int \<lfloor>log 10 (2 ^ b)\<rfloor> + 1" by linarith
  ultimately have "log 10 (2 ^ b) < real p" by simp
  then have "(2::real) ^ b < 10 powr real p"
    by (simp add: log_less_iff)
  then have "(2::real) ^ b < 10 ^ p" by (simp add: powr_realpow)
  then have "real_of_int (2 ^ b) < real_of_int (10 ^ p)" by simp
  then have "(2::int) ^ b < 10 ^ p" by (simp only: of_int_less_iff)
  then show ?thesis by (simp only: p_def)
qed

text \<open>
  \<open>floor(log10(2^b)) + 1\<close> decimal digits hold every integer of bit length \<open>b\<close>.
\<close>

lemma decimal_digits_holds:
  "bit_length v \<le> b \<Longrightarrow> \<bar>v\<bar> < 10 ^ nat (\<lfloor>log 10 (2 ^ b)\<rfloor> + 1)"
  using pow2_less_pow10 [of b] by (simp add: bit_length_le_iff)

subsection \<open>The floating-point result against the exact one\<close>

text \<open>
  When the double \<open>y\<close> that \<open>1 + log10(n)\<close> evaluates to is closer to the exact \<open>1 + x\<close> than
  \<open>x\<close> is to an integer, \<open>int(y)\<close> is \<open>floor(x) + 1\<close>.
\<close>

lemma int_of_float_near:
  assumes "0 \<le> x" and "\<bar>y - (1 + x)\<bar> < min (frac x) (1 - frac x)"
  shows "int_of_float y = \<lfloor>x\<rfloor> + 1"
proof -
  have f: "frac x = x - of_int \<lfloor>x\<rfloor>" by (simp add: frac_def)
  from assms(2) have "\<bar>y - (1 + x)\<bar> < frac x" and "\<bar>y - (1 + x)\<bar> < 1 - frac x" by simp_all
  with f have lo: "of_int (\<lfloor>x\<rfloor> + 1) < y" and hi: "y < of_int (\<lfloor>x\<rfloor> + 1) + 1" by auto
  then have "\<lfloor>y\<rfloor> = \<lfloor>x\<rfloor> + 1" by (intro floor_unique) simp_all
  moreover from assms(1) have "0 \<le> \<lfloor>x\<rfloor>" by simp
  with lo have "0 \<le> y" by linarith
  ultimately show ?thesis by (simp add: int_of_float_def)
qed

text \<open>
  The precision follows the double: when the sum is the whole number \<open>k\<close>, the precision
  is \<open>k\<close>. A logarithm that rounding has brought up to a whole number so gives one digit
  more than the exact digit count.
\<close>

lemma decimal_digits_of_whole:
  assumes "float_add fp 1 (math_log10 fp (2 ^ sz)) = of_int k"
  shows "decimal_digits fp sz = k"
  using assms by (simp add: decimal_digits_def int_of_float_def)

lemma decimal_digits_near:
  assumes "\<bar>float_add fp 1 (math_log10 fp (2 ^ b)) - (1 + log 10 (2 ^ b))\<bar>
             < min (frac (log 10 (2 ^ b))) (1 - frac (log 10 (2 ^ b)))"
  shows "decimal_digits fp b = \<lfloor>log 10 (2 ^ b)\<rfloor> + 1"
proof -
  have "0 \<le> log 10 (2 ^ b)" by (simp add: zero_le_log_cancel_iff)
  from int_of_float_near [OF this assms] show ?thesis by (simp add: decimal_digits_def)
qed

lemma margins_sound:
  "margins_ok n (2 ^ b) (10 ^ k) \<Longrightarrow> i < n \<Longrightarrow>
   \<exists>k'. 10001 * (10::int) ^ k' \<le> 10000 * 2 ^ (b + i) \<and>
        10001 * (2::int) ^ (b + i) \<le> 100000 * 10 ^ k'"
proof (induction n arbitrary: b k i)
  case 0
  then show ?case by simp
next
  case (Suc n)
  show ?case
  proof (cases i)
    case 0
    with Suc.prems(1) show ?thesis by (intro exI [of _ k]) simp
  next
    case (Suc j)
    from Suc.prems(1)
    have m: "margins_ok n (2 * 2 ^ b)
               (if 10 * (10::int) ^ k \<le> 2 * 2 ^ b then 10 * 10 ^ k else 10 ^ k)"
      unfolding margins_ok.simps by blast
    have "\<exists>k2. margins_ok n (2 ^ Suc b) (10 ^ k2)"
    proof (cases "10 * (10::int) ^ k \<le> 2 * 2 ^ b")
      case True
      with m have "margins_ok n (2 ^ Suc b) (10 ^ Suc k)" by (simp only: power_Suc if_True)
      then show ?thesis ..
    next
      case False
      with m have "margins_ok n (2 ^ Suc b) (10 ^ k)" by (simp only: power_Suc if_False)
      then show ?thesis ..
    qed
    then obtain k2 where "margins_ok n (2 ^ Suc b) (10 ^ k2)" ..
    moreover from Suc Suc.prems(2) have "j < n" by simp
    ultimately have "\<exists>k'. 10001 * (10::int) ^ k' \<le> 10000 * 2 ^ (Suc b + j) \<and>
        10001 * (2::int) ^ (Suc b + j) \<le> 100000 * 10 ^ k'"
      by (rule Suc.IH)
    with Suc show ?thesis by simp
  qed
qed

text \<open>The check passes for the 959 exponents from 65 to 1023.\<close>

lemma margins_65: "margins_ok 959 (2 ^ 65) (10 ^ 19)"
  by code_simp

lemma log10_margin: "1 / 100000 < log 10 (10001 / 10000)"
proof -
  have "1 + real 100000 * (1 / 10000) \<le> (1 + 1 / 10000) ^ 100000"
    by (rule Bernoulli_inequality) simp
  then have "(11::real) \<le> (10001 / 10000) ^ 100000" by simp
  then have "log 10 11 \<le> log 10 ((10001 / 10000) ^ 100000)" by simp
  also have "\<dots> = real 100000 * log 10 (10001 / 10000)" by (rule log_nat_power) simp
  finally have "log 10 11 \<le> 100000 * log 10 (10001 / 10000)" by simp
  moreover have "(1::real) < log 10 11" by simp
  ultimately have "1 < 100000 * log 10 (10001 / 10000)" by linarith
  then show ?thesis by simp
qed

text \<open>
  For a bit length from 65 to 1023 (the bit lengths above 64 at which \<open>2**b\<close> is still a
  finite double), \<open>log10(2^b)\<close> is farther than \<open>0.00001\<close> from every integer.
\<close>

lemma pow2_margin:
  assumes "64 < b" and "b \<le> 1023"
  shows "1 / 100000 < min (frac (log 10 (2 ^ b))) (1 - frac (log 10 (2 ^ b)))"
proof -
  from assms have "b - 65 < 959" and b: "65 + (b - 65) = b" by simp_all
  with margins_sound [OF margins_65, of "b - 65"]
  obtain k where k: "10001 * (10::int) ^ k \<le> 10000 * 2 ^ b"
    "10001 * (2::int) ^ b \<le> 100000 * 10 ^ k" by auto
  let ?L = "log 10 (10001 / 10000)"
  let ?x = "log 10 (2 ^ b)"
  have L10: "log 10 ((10001 / 10000) * 10 ^ k) = ?L + real k"
  proof -
    have "log 10 ((10001 / 10000) * 10 ^ k) = ?L + log 10 (10 ^ k)"
      by (rule log_mult_pos) simp_all
    also have "log 10 ((10::real) ^ k) = real k * log 10 10" by (rule log_nat_power) simp
    finally show ?thesis by simp
  qed
  have L2: "log 10 ((10001 / 10000) * 2 ^ b) = ?L + ?x"
    by (rule log_mult_pos) simp_all
  have L10': "log 10 ((10::real) ^ Suc k) = real k + 1"
  proof -
    have "log 10 ((10::real) ^ Suc k) = real (Suc k) * log 10 10" by (rule log_nat_power) simp
    then show ?thesis by simp
  qed
  from k(1) have "real_of_int (10001 * 10 ^ k) \<le> real_of_int (10000 * 2 ^ b)"
    by (simp only: of_int_le_iff)
  then have "(10001 / 10000) * 10 ^ k \<le> (2::real) ^ b" by simp
  then have "log 10 ((10001 / 10000) * 10 ^ k) \<le> ?x" by (intro log_mono) simp_all
  with L10 have lo: "?L + real k \<le> ?x" by (simp only:)
  from k(2) have "real_of_int (10001 * 2 ^ b) \<le> real_of_int (100000 * 10 ^ k)"
    by (simp only: of_int_le_iff)
  then have "(10001 / 10000) * 2 ^ b \<le> (10::real) ^ Suc k" by simp
  then have "log 10 ((10001 / 10000) * 2 ^ b) \<le> log 10 (10 ^ Suc k)"
    by (intro log_mono) simp_all
  with L2 L10' have hi: "?L + ?x \<le> real k + 1" by (simp only:)
  from lo hi log10_margin have "\<lfloor>?x\<rfloor> = int k" by (intro floor_unique) simp_all
  then have "frac ?x = ?x - real k" by (simp add: frac_def)
  with lo hi log10_margin show ?thesis by simp
qed

text \<open>
  On a platform whose \<open>1 + log10(2**b)\<close> is within \<open>0.00001\<close> of the exact value, the
  precision of a bit length from 65 to 1023 is \<open>floor(log10(2^b)) + 1\<close>.
\<close>

lemma decimal_digits_accurate:
  assumes "64 < b" and "b \<le> 1023"
    and "\<bar>float_add fp 1 (math_log10 fp (2 ^ b)) - (1 + log 10 (2 ^ b))\<bar> \<le> 1 / 100000"
  shows "decimal_digits fp b = \<lfloor>log 10 (2 ^ b)\<rfloor> + 1"
  using pow2_margin [OF assms(1,2)] assms(3) by (intro decimal_digits_near) simp

lemma decimal_digits_ideal: "decimal_digits ideal_float b = \<lfloor>log 10 (2 ^ b)\<rfloor> + 1"
proof -
  have "0 \<le> log 10 (2 ^ b)" by (simp add: zero_le_log_cancel_iff)
  then have "0 \<le> 1 + log 10 (2 ^ b)" by simp
  then show ?thesis
    by (simp add: decimal_digits_def ideal_float_def int_of_float_def add.commute)
qed

subsection \<open>Columns of integers\<close>

lemma py_max_abs:
  "vals \<noteq> [] \<Longrightarrow> py_max (map abs_val vals) = Inr (Max (abs_val ` set vals))"
proof (cases vals)
  case Nil
  assume "vals \<noteq> []"
  with Nil show ?thesis by simp
next
  case (Cons v vs)
  have "fold max (map abs_val vs) (abs_val v) = Max (set (abs_val v # map abs_val vs))"
    by (rule Max.set_eq_fold [symmetric])
  with Cons show ?thesis by simp
qed

lemma int_column_not_float: "vals \<noteq> [] \<Longrightarrow> list_all is_int vals \<Longrightarrow> \<not> list_all is_float vals"
proof (cases vals)
  case Nil
  assume "vals \<noteq> []"
  with Nil show ?thesis by simp
next
  case (Cons v vs)
  assume "list_all is_int vals"
  with Cons have "is_int v" by simp
  then have "\<not> is_float v" by (cases v) simp_all
  with Cons show ?thesis by simp
qed

lemma unify_int_column:
  assumes "vals \<noteq> []" and "list_all is_int vals"
  shows "unify_datatype fp vals = Inr (int_type fp (bit_length (Max (abs_val ` set vals))))"
  using assms by (simp add: unify_datatype_def int_column_not_float py_max_abs)



text \<open>
  The column \<open>[2**64, 1]\<close> on any platform whose \<open>1 + log10(2**65)\<close> is within \<open>0.00001\<close> of
  the exact value, which is about 20.57: the type is \<open>DECIMAL(20)\<close>.
\<close>

lemma sixty_five_bits_accurate:
  assumes "\<bar>float_add fp 1 (math_log10 fp (2 ^ 65)) - (1 + log 10 (2 ^ 65))\<bar> \<le> 1 / 100000"
  shows "unify_datatype fp [PInt 18446744073709551616, PInt 1] = Inr ''DECIMAL(20)''"
proof -
  have b65: "bit_length 18446744073709551616 = 65"
    using bit_length_eq_iff [of 18446744073709551616 64] by simp
  have "\<lfloor>log 10 (2 ^ 65)\<rfloor> + 1 = 20"
    using floor_log10_length [of 65] by (simp add: decimal_length.simps)
  with decimal_digits_accurate [of 65 fp, OF _ _ assms] have "decimal_digits fp 65 = 20"
    by simp
  with b65 show ?thesis
    by (simp add: unify_int_column int_type_def str_int_def str_nat.simps digit_char_def)
qed

text \<open>
  Claim C2, as stated, fails: the column \<open>[2**64, 1]\<close> has bit length 65 and
  \<open>log10(2**65)\<close> is about 19.57. The code returns \<open>DECIMAL(20)\<close>, where the claim's formula
  \<open>ceil(log10(2**65)) + 1\<close> gives 21. The theorem runs the code without rounding; by
  \<open>sixty_five_bits_accurate\<close> every platform accurate to \<open>0.00001\<close> there returns the same.
\<close>

theorem decimal_precision_counterexample:
  "list_all is_int [PInt 18446744073709551616, PInt 1] \<and>
   bit_length (Max (abs_val ` set [PInt 18446744073709551616, PInt 1])) = 65 \<and>
   unify_datatype ideal_float [PInt 18446744073709551616, PInt 1] = Inr ''DECIMAL(20)'' \<and>
   spec_decimal_precision 65 = 21 \<and>
   unify_datatype ideal_float [PInt 18446744073709551616, PInt 1]
     \<noteq> Inr (''DECIMAL('' @ str_int (spec_decimal_precision 65) @ '')'')"
proof -
  have b65: "bit_length 18446744073709551616 = 65"
    using bit_length_eq_iff [of 18446744073709551616 64] by simp
  have f65: "\<lfloor>log 10 (2 ^ 65)\<rfloor> + 1 = 20"
    using floor_log10_length [of 65] by (simp add: decimal_length.simps)
  then have d65: "decimal_digits ideal_float 65 = 20"
    by (simp only: decimal_digits_ideal)
  have u: "unify_datatype ideal_float [PInt 18446744073709551616, PInt 1] = Inr ''DECIMAL(20)''"
    using b65 d65
    by (simp add: unify_int_column int_type_def str_int_def str_nat.simps digit_char_def)
  have "\<lfloor>log 10 (2 ^ 65)\<rfloor> + 1 = \<lceil>log 10 (2 ^ 65)\<rceil>"
    by (rule floor_log10_pow2) simp
  with f65 have s: "spec_decimal_precision 65 = 21"
    unfolding spec_decimal_precision_def by simp
  have "str_int 21 = ''21''"
    by (simp add: str_int_def str_nat.simps digit_char_def)
  with u s b65 show ?thesis by simp
qed

text \<open>
  Claim C2, amended. For a column whose values all pass \<open>isinstance(v, int)\<close> and whose
  largest absolute value has a bit length \<open>b\<close> above 64, the Type Unifier returns
  \<open>DECIMAL(p)\<close>, with one parameter, where \<open>p\<close> is \<open>int(y)\<close> and \<open>y\<close> is the double that
  \<open>1 + log10(2**b)\<close> evaluates to. Whenever \<open>y\<close> is closer to the exact \<open>1 + log10(2^b)\<close> than
  \<open>log10(2^b)\<close> is to an integer, and so whenever \<open>b \<le> 1023\<close> and \<open>y\<close> is within
  \<open>0.00001\<close> of the exact value, \<open>p\<close> is \<open>floor(log10(2^b)) + 1\<close>, the number of decimal digits of \<open>2^b\<close>:
  that is \<open>ceil(log10(2^b))\<close>, one less than the claim's formula.
\<close>

theorem unify_big_integer_precision:
  assumes "vals \<noteq> []" and "list_all is_int vals"
    and "b = bit_length (Max (abs_val ` set vals))" and "64 < b"
    and "y = float_add fp 1 (math_log10 fp (2 ^ b))"
  shows "unify_datatype fp vals = Inr (''DECIMAL('' @ str_int (int_of_float y) @ '')'') \<and>
         (\<bar>y - (1 + log 10 (2 ^ b))\<bar> < min (frac (log 10 (2 ^ b))) (1 - frac (log 10 (2 ^ b)))
            \<longrightarrow> unify_datatype fp vals
                  = Inr (''DECIMAL('' @ str_int (\<lfloor>log 10 (2 ^ b)\<rfloor> + 1) @ '')'')) \<and>
         (b \<le> 1023 \<and> \<bar>y - (1 + log 10 (2 ^ b))\<bar> \<le> 1 / 100000
            \<longrightarrow> unify_datatype fp vals
                  = Inr (''DECIMAL('' @ str_int (\<lfloor>log 10 (2 ^ b)\<rfloor> + 1) @ '')'')) \<and>
         \<lfloor>log 10 (2 ^ b)\<rfloor> + 1 = \<lceil>log 10 (2 ^ b)\<rceil> \<and>
         \<lfloor>log 10 (2 ^ b)\<rfloor> + 1 = spec_decimal_precision b - 1"
proof -
  from assms(1-4)
  have u: "unify_datatype fp vals = Inr (''DECIMAL('' @ str_int (decimal_digits fp b) @ '')'')"
    by (simp add: unify_int_column int_type_def)
  then have "unify_datatype fp vals = Inr (''DECIMAL('' @ str_int (int_of_float y) @ '')'')"
    by (simp add: decimal_digits_def assms(5))
  moreover have "unify_datatype fp vals
      = Inr (''DECIMAL('' @ str_int (\<lfloor>log 10 (2 ^ b)\<rfloor> + 1) @ '')'')"
    if "\<bar>y - (1 + log 10 (2 ^ b))\<bar> < min (frac (log 10 (2 ^ b))) (1 - frac (log 10 (2 ^ b)))"
    using u decimal_digits_near [of fp b] that by (simp add: assms(5))
  moreover have "unify_datatype fp vals
      = Inr (''DECIMAL('' @ str_int (\<lfloor>log 10 (2 ^ b)\<rfloor> + 1) @ '')'')"
    if "b \<le> 1023 \<and> \<bar>y - (1 + log 10 (2 ^ b))\<bar> \<le> 1 / 100000"
    using u decimal_digits_accurate [of b fp] that assms(4) by (simp add: assms(5))
  moreover have c: "\<lfloor>log 10 (2 ^ b)\<rfloor> + 1 = \<lceil>log 10 (2 ^ b)\<rceil>"
    using assms(4) by (intro floor_log10_pow2) simp
  moreover from c have "\<lfloor>log 10 (2 ^ b)\<rfloor> + 1 = spec_decimal_precision b - 1"
    by (simp add: spec_decimal_precision_def)
  ultimately show ?thesis by blast
qed

theorem unify_big_integer_precision_witness:
  "unify_datatype ideal_float [PInt (- 295147905179352825856), PInt 12] = Inr ''DECIMAL(21)''"
proof -
  let ?vals = "[PInt (- 295147905179352825856), PInt 12]"
  let ?y = "float_add ideal_float 1 (math_log10 ideal_float (2 ^ 69))"
  have b: "69 = bit_length (Max (abs_val ` set ?vals))"
    using bit_length_eq_iff [of 295147905179352825856 68] by simp
  have y: "?y = 1 + log 10 (2 ^ 69)" by (simp add: ideal_float_def)
  have "log 10 (2 ^ 69) \<notin> \<int>"
    using log10_pow2_not_int [of 69] by (auto simp: Ints_def)
  then have "0 < frac (log 10 (2 ^ 69))" by (simp add: frac_gt_0_iff)
  moreover have "frac (log 10 (2 ^ 69)) < 1" by (rule frac_lt_1)
  ultimately have near: "\<bar>?y - (1 + log 10 (2 ^ 69))\<bar>
      < min (frac (log 10 (2 ^ 69))) (1 - frac (log 10 (2 ^ 69)))"
    unfolding y by simp
  have acc: "(69::nat) \<le> 1023 \<and> \<bar>?y - (1 + log 10 (2 ^ 69))\<bar> \<le> 1 / 100000"
    unfolding y by simp
  have "\<lfloor>log 10 (2 ^ 69)\<rfloor> + 1 = 21"
    using floor_log10_length [of 69] by (simp add: decimal_length.simps)
  then have s: "str_int (\<lfloor>log 10 (2 ^ 69)\<rfloor> + 1) = ''21''"
    by (simp add: str_int_def str_nat.simps digit_char_def)
  have ne: "?vals \<noteq> []" and ints: "list_all is_int ?vals" and big: "(64::nat) < 69"
    by simp_all
  note precision = unify_big_integer_precision [OF ne ints b big refl [of ?y]]
  from precision near
  have "unify_datatype ideal_float ?vals
          = Inr (''DECIMAL('' @ str_int (\<lfloor>log 10 (2 ^ 69)\<rfloor> + 1) @ '')'')"
    by blast
  moreover from precision acc
  have "unify_datatype ideal_float ?vals
          = Inr (''DECIMAL('' @ str_int (\<lfloor>log 10 (2 ^ 69)\<rfloor> + 1) @ '')'')"
    by blast
  ultimately show ?thesis by (simp only: s) simp
qed

subsection \<open>What the Type Unifier can return and raise\<close>

lemma all_currency_error:
  "all_currency vals = Inl e \<Longrightarrow> e = IndexError ''string index out of range''"
  by (induction vals rule: all_currency.induct) (auto split: if_splits)

lemma all_currency_True:
  "all_currency vals = Inr True \<Longrightarrow> v \<in> set vals \<Longrightarrow> \<exists>s. v = PStr s \<and> s \<noteq> [] \<and> hd s = CHR ''$''"
  by (induction vals rule: all_currency.induct) (auto split: if_splits)

lemma all_currency_no_empty:
  "PStr [] \<notin> set vals \<Longrightarrow> \<exists>r. all_currency vals = Inr r"
  by (induction vals rule: all_currency.induct) auto

text \<open>\<open>max\<close> is never reached with an empty column: the test for floats returns first.\<close>

lemma unify_datatype_error:
  assumes "unify_datatype fp vals = Inl e"
  shows "e = IndexError ''string index out of range''"
proof (cases "vals = []")
  case True
  with assms show ?thesis by (simp add: unify_datatype_def)
next
  case False
  with assms show ?thesis
    by (auto simp: unify_datatype_def py_max_abs all_currency_error
          split: if_splits sum.splits bool.splits)
qed

lemma last_int_type: "int_type fp sz \<noteq> [] \<and> last (int_type fp sz) \<noteq> CHR '',''"
  by (simp add: int_type_def)

lemma last_decimal_type: "decimal_type vals \<noteq> [] \<and> last (decimal_type vals) \<noteq> CHR '',''"
  by (simp add: decimal_type_def Let_def split: prod.splits)

text \<open>A type the Type Unifier returns is never empty and never ends in a comma.\<close>

lemma unify_datatype_result:
  assumes "unify_datatype fp vals = Inr t"
  shows "t \<noteq> [] \<and> last t \<noteq> CHR '',''"
  using assms last_int_type last_decimal_type
  by (auto simp: unify_datatype_def split: if_splits sum.splits bool.splits)

text \<open>Without an empty string in the column, the Type Unifier returns.\<close>

lemma unify_datatype_returns:
  assumes "PStr [] \<notin> set vals"
  shows "\<exists>t. unify_datatype fp vals = Inr t"
proof (cases "vals = []")
  case True
  then show ?thesis by (simp add: unify_datatype_def)
next
  case False
  from all_currency_no_empty [OF assms] obtain r where "all_currency vals = Inr r" ..
  with False show ?thesis
    by (simp add: unify_datatype_def py_max_abs split: bool.splits)
qed

lemma all_currency_raises_iff:
  "(\<exists>e. all_currency vals = Inl e) \<longleftrightarrow>
   (\<exists>pre rest. vals = pre @ PStr [] # rest \<and>
      (\<forall>v\<in>set pre. \<exists>s. v = PStr s \<and> s \<noteq> [] \<and> hd s = CHR ''$''))"
proof (induction vals)
  case Nil
  show ?case by simp
next
  case (Cons v vs)
  show ?case
  proof (cases "\<exists>s. v = PStr s \<and> s \<noteq> [] \<and> hd s = CHR ''$''")
    case True
    then have "(\<exists>e. all_currency (v # vs) = Inl e) \<longleftrightarrow> (\<exists>e. all_currency vs = Inl e)"
      by auto
    moreover have "(\<exists>pre rest. v # vs = pre @ PStr [] # rest \<and>
        (\<forall>v\<in>set pre. \<exists>s. v = PStr s \<and> s \<noteq> [] \<and> hd s = CHR ''$'')) \<longleftrightarrow>
      (\<exists>pre rest. vs = pre @ PStr [] # rest \<and>
        (\<forall>v\<in>set pre. \<exists>s. v = PStr s \<and> s \<noteq> [] \<and> hd s = CHR ''$''))"
      using True by (auto simp: Cons_eq_append_conv) (metis append_Cons set_ConsD)
    ultimately show ?thesis using Cons.IH by simp
  next
    case False
    show ?thesis
    proof (cases "v = PStr []")
      case True
      then have "v # vs = [] @ PStr [] # vs" by simp
      then have "\<exists>pre rest. v # vs = pre @ PStr [] # rest \<and>
        (\<forall>v\<in>set pre. \<exists>s. v = PStr s \<and> s \<noteq> [] \<and> hd s = CHR ''$'')"
        by (metis empty_iff empty_set)
      with True show ?thesis by simp
    next
      case ne: False
      with False have "\<not> (\<exists>e. all_currency (v # vs) = Inl e)" by (cases v) auto
      moreover from False ne have "\<not> (\<exists>pre rest. v # vs = pre @ PStr [] # rest \<and>
        (\<forall>v\<in>set pre. \<exists>s. v = PStr s \<and> s \<noteq> [] \<and> hd s = CHR ''$''))"
        by (auto simp: Cons_eq_append_conv)
      ultimately show ?thesis by blast
    qed
  qed
qed

text \<open>
  The Type Unifier raises exactly on the columns in which an empty string comes before any
  value that is not a string starting with \<open>$\<close>.
\<close>

lemma unify_datatype_raises_iff:
  "(\<exists>e. unify_datatype fp vals = Inl e) \<longleftrightarrow>
   (\<exists>pre rest. vals = pre @ PStr [] # rest \<and>
      (\<forall>v\<in>set pre. \<exists>s. v = PStr s \<and> s \<noteq> [] \<and> hd s = CHR ''$''))"
proof
  assume "\<exists>e. unify_datatype fp vals = Inl e"
  then obtain e where e: "unify_datatype fp vals = Inl e" ..
  have "vals \<noteq> []" using e by (auto simp: unify_datatype_def)
  with e have "\<exists>e. all_currency vals = Inl e"
    by (auto simp: unify_datatype_def py_max_abs split: if_splits sum.splits bool.splits)
  then show "\<exists>pre rest. vals = pre @ PStr [] # rest \<and>
      (\<forall>v\<in>set pre. \<exists>s. v = PStr s \<and> s \<noteq> [] \<and> hd s = CHR ''$'')"
    by (simp only: all_currency_raises_iff)
next
  assume r: "\<exists>pre rest. vals = pre @ PStr [] # rest \<and>
      (\<forall>v\<in>set pre. \<exists>s. v = PStr s \<and> s \<noteq> [] \<and> hd s = CHR ''$'')"
  then have "PStr [] \<in> set vals" by auto
  then have "\<not> list_all is_float vals" "\<not> list_all is_int vals" "\<not> list_all is_decimal vals"
    by (auto simp: list_all_iff intro!: bexI [of _ "PStr []"])
  moreover from r have "\<exists>e. all_currency vals = Inl e"
    by (simp only: all_currency_raises_iff)
  ultimately show "\<exists>e. unify_datatype fp vals = Inl e"
    by (auto simp: unify_datatype_def)
qed

text \<open>
  Claim C4 (the code departs from it). The column \<open>['', 'abc']\<close> is not empty; no rule
  before the currency rule matches it, and the currency rule reads \<open>v[0]\<close> of the empty
  string: the Type Unifier raises \<open>IndexError\<close> and returns no type.
\<close>

theorem unify_empty_string_raises:
  "unify_datatype fp [PStr '''', PStr ''abc''] = Inl (IndexError ''string index out of range'')"
  by (simp add: unify_datatype_def)

subsection \<open>Mixed columns\<close>

lemma mixed_column_no_rule:
  assumes "v \<in> set vals" and "is_float v" and "w \<in> set vals" and "is_int w"
  shows "\<not> list_all is_float vals \<and> \<not> list_all is_int vals \<and> \<not> list_all is_decimal vals \<and>
         all_currency vals \<noteq> Inr True \<and> \<not> list_all is_fraction vals"
proof -
  from assms(4) have "\<not> is_float w" by (cases w) simp_all
  with assms(3) have "\<not> list_all is_float vals" by (auto simp: list_all_iff)
  moreover from assms(2) have "\<not> is_int v \<and> \<not> is_decimal v \<and> \<not> is_fraction v \<and> (\<forall>s. v \<noteq> PStr s)"
    by (cases v) simp_all
  with assms(1) have "\<not> list_all is_int vals" "\<not> list_all is_decimal vals"
    "\<not> list_all is_fraction vals" "all_currency vals \<noteq> Inr True"
    using all_currency_True [of vals v] by (auto simp: list_all_iff)
  ultimately show ?thesis by simp
qed

text \<open>
  A column with a float and an integer matches no rule: when the Type Unifier returns, it
  returns \<open>TEXT\<close>, and it returns when the column has no empty string.
\<close>

lemma mixed_column_text:
  assumes "v \<in> set vals" and "is_float v" and "w \<in> set vals" and "is_int w"
  shows "unify_datatype fp vals = Inr ''TEXT'' \<or>
         unify_datatype fp vals = Inl (IndexError ''string index out of range'')"
    and "PStr [] \<notin> set vals \<Longrightarrow> unify_datatype fp vals = Inr ''TEXT''"
proof -
  note no = mixed_column_no_rule [OF assms]
  show *: "unify_datatype fp vals = Inr ''TEXT'' \<or>
         unify_datatype fp vals = Inl (IndexError ''string index out of range'')"
    using no all_currency_error [of vals]
    by (auto simp: unify_datatype_def split: sum.splits bool.splits)
  assume "PStr [] \<notin> set vals"
  from unify_datatype_returns [OF this, of fp] * show "unify_datatype fp vals = Inr ''TEXT''" by auto
qed

text \<open>
  Claim C6 (the code departs from it). The column \<open>['', 1.5, 2]\<close> holds a float and an
  integer, yet the result is not \<open>TEXT\<close>: the currency rule reads \<open>v[0]\<close> of the empty
  string first and raises \<open>IndexError\<close>.
\<close>

theorem mixed_column_raises:
  "PFloat ''1.5'' \<in> set [PStr '''', PFloat ''1.5'', PInt 2] \<and> is_float (PFloat ''1.5'') \<and>
   PInt 2 \<in> set [PStr '''', PFloat ''1.5'', PInt 2] \<and> is_int (PInt 2) \<and>
   unify_datatype fp [PStr '''', PFloat ''1.5'', PInt 2]
     = Inl (IndexError ''string index out of range'')"
  by (simp add: unify_datatype_def)

subsection \<open>Columns of decimals\<close>

lemma find_char_append: "c \<notin> set a \<Longrightarrow> find_char c (a @ c # b) = int (length a)"
  by (induction a) (auto simp: Let_def)

lemma find_char_rev_append: "c \<notin> set b \<Longrightarrow> find_char c (rev (a @ c # b)) = int (length b)"
  using find_char_append [of c "rev b" "rev a"] by simp

lemma foldl_decimal_step:
  "list_all is_decimal vals \<Longrightarrow>
   foldl decimal_step (r, l) vals =
     (fold max (map (\<lambda>v. find_char CHR ''.'' (rev (decimal_str v))) vals) r,
      fold max (map (\<lambda>v. find_char CHR ''.'' (decimal_str v)) vals) l)"
proof (induction vals arbitrary: r l)
  case Nil
  show ?case by simp
next
  case (Cons v vs)
  then obtain s where "v = PDecimal s" by (cases v) simp_all
  with Cons show ?case by (simp add: max.commute)
qed

lemma dot_not_digit: "\<not> is_digit CHR ''.''" and minus_not_digit: "\<not> is_digit CHR ''-''"
  by (simp_all add: is_digit_def)

text \<open>
  On a decimal written as digits, a decimal point and digits (no sign, no exponent), the
  positions the code finds are the digit counts of the specification.
\<close>

lemma plain_decimal_counts:
  assumes "a \<noteq> []" and "\<forall>c\<in>set a. is_digit c" and "\<forall>c\<in>set b. is_digit c"
  shows "find_char CHR ''.'' (a @ CHR ''.'' # b) = int (digits_left (a @ CHR ''.'' # b))"
    and "find_char CHR ''.'' (rev (a @ CHR ''.'' # b)) = int (digits_right (a @ CHR ''.'' # b))"
    and "1 \<le> digits_left (a @ CHR ''.'' # b)"
proof -
  let ?s = "a @ CHR ''.'' # b"
  from assms(1) obtain x a' where a: "a = x # a'" by (cases a) auto
  with assms(2) have "is_digit x" by simp
  with minus_not_digit have "x \<noteq> CHR ''-''" by auto
  with a have u: "unsigned ?s = ?s" by (simp add: unsigned_def)
  from assms(2) dot_not_digit have tw: "takeWhile is_digit ?s = a"
    by (simp add: takeWhile_append2)
  from assms(2) dot_not_digit have dw: "dropWhile is_digit ?s = CHR ''.'' # b"
    by (simp add: dropWhile_append2)
  from assms(3) have twb: "takeWhile is_digit b = b" by simp
  from assms(2) dot_not_digit have na: "CHR ''.'' \<notin> set a" by auto
  from assms(3) dot_not_digit have nb: "CHR ''.'' \<notin> set b" by auto
  show "find_char CHR ''.'' ?s = int (digits_left ?s)"
    using na by (simp add: digits_left_def u tw find_char_append)
  show "find_char CHR ''.'' (rev ?s) = int (digits_right ?s)"
    using nb find_char_rev_append [of "CHR ''.''" b a]
    by (simp add: digits_right_def u dw twb)
  show "1 \<le> digits_left ?s"
    unfolding digits_left_def u tw using assms(1) by (cases a) simp_all
qed

lemma Max_int_image:
  assumes "xs \<noteq> []"
  shows "Max (set (map (\<lambda>v. int (f v)) xs)) = int (Max (set (map f xs)))"
proof -
  have "int (Max (f ` set xs)) = Max (int ` (f ` set xs))"
    using assms by (intro mono_Max_commute) (auto intro: monoI)
  then show ?thesis by (simp add: image_image)
qed

text \<open>
  On a column of decimals that are all written as digits, a decimal point and digits (no
  sign, no exponent), the Type Unifier returns the type that the specification describes.
\<close>

lemma unify_plain_decimals:
  assumes ne: "vals \<noteq> []"
    and plain: "\<forall>v\<in>set vals. \<exists>a b. v = PDecimal (a @ CHR ''.'' # b) \<and> a \<noteq> [] \<and>
                  (\<forall>c\<in>set a. is_digit c) \<and> (\<forall>c\<in>set b. is_digit c)"
  shows "unify_datatype fp vals = Inr (spec_decimal_type vals)"
proof -
  let ?fr = "\<lambda>v. find_char CHR ''.'' (rev (decimal_str v))"
  let ?fl = "\<lambda>v. find_char CHR ''.'' (decimal_str v)"
  let ?dr = "digits_right \<circ> decimal_str"
  let ?dl = "digits_left \<circ> decimal_str"
  from plain have dec: "list_all is_decimal vals" by (auto simp: list_all_iff)
  from ne obtain v vs where vals: "vals = v # vs" by (cases vals) auto
  with plain obtain s where "v = PDecimal s" by auto
  with vals have nf: "\<not> list_all is_float vals" and ni: "\<not> list_all is_int vals" by simp_all
  have u: "unify_datatype fp vals = Inr (decimal_type vals)"
    using nf ni dec by (simp add: unify_datatype_def)
  have counts: "?fr v = int (?dr v) \<and> ?fl v = int (?dl v) \<and> 1 \<le> ?dl v" if "v \<in> set vals" for v
  proof -
    from plain that obtain a b where "v = PDecimal (a @ CHR ''.'' # b)" "a \<noteq> []"
      "\<forall>c\<in>set a. is_digit c" "\<forall>c\<in>set b. is_digit c" by blast
    with plain_decimal_counts [of a b] show ?thesis by simp
  qed
  then have "map ?fr vals = map (\<lambda>v. int (?dr v)) vals" "map ?fl vals = map (\<lambda>v. int (?dl v)) vals"
    by simp_all
  with foldl_decimal_step [OF dec, of 0 1]
  have "foldl decimal_step (0, 1) vals =
          (fold max (map (\<lambda>v. int (?dr v)) vals) 0, fold max (map (\<lambda>v. int (?dl v)) vals) 1)"
    by simp
  also have "fold max (map (\<lambda>v. int (?dr v)) vals) 0 = Max (set (0 # map (\<lambda>v. int (?dr v)) vals))"
    by (rule Max.set_eq_fold [symmetric])
  also have "\<dots> = max 0 (Max (set (map (\<lambda>v. int (?dr v)) vals)))"
    using ne by simp
  also have "\<dots> = int (Max (set (map ?dr vals)))"
    using Max_int_image [OF ne, of ?dr] by simp
  also have "fold max (map (\<lambda>v. int (?dl v)) vals) 1 = Max (set (1 # map (\<lambda>v. int (?dl v)) vals))"
    by (rule Max.set_eq_fold [symmetric])
  also have "\<dots> = max 1 (Max (set (map (\<lambda>v. int (?dl v)) vals)))"
    using ne by simp
  also have "\<dots> = max 1 (int (Max (set (map ?dl vals))))"
    using Max_int_image [OF ne, of ?dl] by simp
  also have "\<dots> = int (Max (set (map ?dl vals)))"
  proof -
    have "?dl v \<le> Max (set (map ?dl vals))" using vals by simp
    moreover have "1 \<le> ?dl v" using counts [of v] vals by simp
    ultimately show ?thesis by simp
  qed
  finally have "foldl decimal_step (0, 1) vals =
      (int (Max (set (map ?dr vals))), int (Max (set (map ?dl vals))))" .
  then have "decimal_type vals = spec_decimal_type vals"
    by (simp add: decimal_type_def spec_decimal_type_def Let_def add.commute)
  with u show ?thesis by simp
qed

text \<open>
  Claim C3 (the code departs from it). The column \<open>[Decimal('12345'), Decimal('7')]\<close> holds
  decimals whose canonical strings \<open>'12345'\<close> and \<open>'7'\<close> have no decimal point, so \<open>find\<close>
  returns \<open>-1\<close> for both: the code returns \<open>DECIMAL(2, 1)\<close>, which cannot hold \<open>12345\<close>. The
  claim's counts are 5 digits left of the point and none right of it, \<open>DECIMAL(6, 1)\<close>.
\<close>

theorem decimal_without_point_undersized:
  "list_all is_decimal [PDecimal ''12345'', PDecimal ''7''] \<and>
   unify_datatype fp [PDecimal ''12345'', PDecimal ''7''] = Inr ''DECIMAL(2, 1)'' \<and>
   spec_decimal_type [PDecimal ''12345'', PDecimal ''7''] = ''DECIMAL(6, 1)''"
  by (simp add: unify_datatype_def decimal_type_def spec_decimal_type_def digits_left_def
        digits_right_def unsigned_def is_digit_def str_int_def str_nat.simps digit_char_def)

text \<open>A sign is counted as a digit left of the point.\<close>

lemma decimal_sign_counted:
  "unify_datatype fp [PDecimal ''-1.5'', PDecimal ''0.25''] = Inr ''DECIMAL(5, 3)'' \<and>
   spec_decimal_type [PDecimal ''-1.5'', PDecimal ''0.25''] = ''DECIMAL(4, 3)''"
  by (simp add: unify_datatype_def decimal_type_def spec_decimal_type_def digits_left_def
        digits_right_def unsigned_def is_digit_def str_int_def str_nat.simps digit_char_def)

section \<open>Facts about the Schema Inferrer\<close>

subsection \<open>Validation\<close>

text \<open>
  Claim C7. A batch of fewer than two records fails with \<open>InsufficientData\<close>, whose message
  says that at least two rows are required, and \<open>unify_datatype\<close> has not been called.
\<close>

theorem too_few_rows:
  assumes "length dataset < 2"
  shows "infer_schema_nt fp dataset = Inl InsufficientData \<and>
         message InsufficientData = ''At least two rows are required for inference'' \<and>
         unify_calls fp dataset = 0"
  using assms
  by (simp add: infer_schema_nt_def unify_calls_def infer_schema_nt_run_def InsufficientData_def)

theorem too_few_rows_witness:
  "\<forall>fp. infer_schema_nt fp [] = Inl InsufficientData \<and>
        infer_schema_nt fp [namedtuple 1 ''R'' [''a''] [PStr '''']] = Inl InsufficientData \<and>
        unify_calls fp [namedtuple 1 ''R'' [''a''] [PStr '''']] = 0"
proof
  fix fp
  show "infer_schema_nt fp [] = Inl InsufficientData \<and>
        infer_schema_nt fp [namedtuple 1 ''R'' [''a''] [PStr '''']] = Inl InsufficientData \<and>
        unify_calls fp [namedtuple 1 ''R'' [''a''] [PStr '''']] = 0"
    using too_few_rows [of "[]" fp]
      too_few_rows [of "[namedtuple 1 ''R'' [''a''] [PStr '''']]" fp]
    by simp
qed

text \<open>
  Claim C8, as stated, fails: the count of records is tested first, so a batch of one
  element that is not a named tuple fails with \<open>InsufficientData\<close>.
\<close>

theorem single_non_tuple_counterexample:
  "\<forall>fp. \<not> (is_tuple a_dict \<and> fields_attr a_dict \<noteq> None) \<and>
        infer_schema_nt fp [a_dict] = Inl InsufficientData \<and>
        infer_schema_nt fp [a_dict] \<noteq> Inl NotUniformRecordShape"
  by (simp add: infer_schema_nt_def infer_schema_nt_run_def a_dict_def InsufficientData_def
        NotUniformRecordShape_def)

text \<open>
  Claim C8, amended. A batch of at least two records, one of which is not an instance of
  \<open>tuple\<close> or has no \<open>_fields\<close>, fails with \<open>NotUniformRecordShape\<close>, and \<open>unify_datatype\<close>
  has not been called.
\<close>

theorem non_namedtuple_rejected:
  assumes "2 \<le> length dataset"
    and "\<exists>t\<in>set dataset. \<not> (is_tuple t \<and> fields_attr t \<noteq> None)"
  shows "infer_schema_nt fp dataset = Inl NotUniformRecordShape \<and> unify_calls fp dataset = 0"
proof -
  from assms(2) have "\<not> list_all (\<lambda>t. is_tuple t \<and> fields_attr t \<noteq> None) dataset"
    by (simp add: list_all_iff)
  with assms(1) show ?thesis
    by (simp add: infer_schema_nt_def unify_calls_def infer_schema_nt_run_def)
qed

theorem non_namedtuple_rejected_witness:
  "\<forall>fp. infer_schema_nt fp
          [namedtuple 1 ''R'' [''a''] [PInt 1], a_dict, namedtuple 1 ''R'' [''a''] [PInt 2]]
        = Inl NotUniformRecordShape"
proof
  fix fp
  have "\<not> (is_tuple a_dict \<and> fields_attr a_dict \<noteq> None)"
    by (simp add: a_dict_def)
  then show "infer_schema_nt fp
          [namedtuple 1 ''R'' [''a''] [PInt 1], a_dict, namedtuple 1 ''R'' [''a''] [PInt 2]]
        = Inl NotUniformRecordShape"
    using non_namedtuple_rejected
      [of "[namedtuple 1 ''R'' [''a''] [PInt 1], a_dict, namedtuple 1 ''R'' [''a''] [PInt 2]]" fp]
    by simp
qed

subsection \<open>The sample batch\<close>


subsection \<open>Gathering a column\<close>

lemma gather_ok:
  "\<forall>t\<in>set dataset. n < length (items t) \<Longrightarrow> gather dataset n = Inr (column dataset n)"
  by (induction dataset) (simp_all add: column_def getitem_def)

lemma gather_short:
  "t \<in> set dataset \<Longrightarrow> length (items t) \<le> n \<Longrightarrow>
   gather dataset n = Inl (IndexError ''tuple index out of range'')"
proof (induction dataset)
  case Nil
  then show ?case by simp
next
  case (Cons r rs)
  show ?case
  proof (cases "n < length (items r)")
    case True
    with Cons.prems have "t \<in> set rs" by auto
    with Cons have "gather rs n = Inl (IndexError ''tuple index out of range'')" by simp
    with True show ?thesis by (simp add: getitem_def)
  next
    case False
    then show ?thesis by (simp add: getitem_def)
  qed
qed

lemma gather_error:
  "gather dataset n = Inl e \<Longrightarrow> e = IndexError ''tuple index out of range''"
  by (induction dataset arbitrary: e) (auto simp: getitem_def split: sum.splits if_splits)

subsection \<open>The loop over the columns\<close>

lemma dict_set_fresh: "k \<notin> fst ` set kvs \<Longrightarrow> dict_set kvs k v = kvs @ [(k, v)]"
  by (induction kvs) auto

text \<open>The loop raises nothing but the two \<open>IndexError\<close>s; \<open>UnunifiableColumn\<close> is dead code.\<close>

lemma infer_columns_error:
  "infer_columns fp dataset n fs types calls = (c, Inl e) \<Longrightarrow>
   e = IndexError ''tuple index out of range'' \<or> e = IndexError ''string index out of range''"
proof (induction fs arbitrary: n types calls)
  case Nil
  then show ?case by simp
next
  case (Cons col cols)
  show ?case
  proof (cases "gather dataset n")
    case (Inl e')
    with Cons.prems gather_error [of dataset n e'] show ?thesis by simp
  next
    case (Inr colvals)
    show ?thesis
    proof (cases "unify_datatype fp colvals")
      case (Inl e')
      with Cons.prems Inr unify_datatype_error [of fp colvals e'] show ?thesis by simp
    next
      case r: (Inr coldef)
      with unify_datatype_result [of fp colvals coldef] have "coldef \<noteq> []" by simp
      with Cons.prems Inr r
      have "infer_columns fp dataset (Suc n) cols (dict_set types col coldef) (Suc calls) = (c, Inl e)"
        by simp
      then show ?thesis by (rule Cons.IH)
    qed
  qed
qed

text \<open>
  When every record has an item for each field and every column unifies, the loop calls
  \<open>unify_datatype\<close> once per field and stores the types in the order of the fields.
\<close>

lemma infer_columns_ok:
  assumes "\<forall>t\<in>set dataset. n + length fs \<le> length (items t)"
    and "length ts = length fs"
    and "\<forall>i<length fs. unify_datatype fp (column dataset (n + i)) = Inr (ts ! i)"
    and "distinct fs" and "set fs \<inter> fst ` set types = {}"
  shows "infer_columns fp dataset n fs types calls = (calls + length fs, Inr (types @ zip fs ts))"
  using assms
proof (induction fs arbitrary: n ts types calls)
  case Nil
  then show ?case by simp
next
  case (Cons col cols)
  from Cons.prems(2) obtain t ts' where ts: "ts = t # ts'" by (cases ts) auto
  from Cons.prems(1) have "\<forall>r\<in>set dataset. n < length (items r)" by auto
  then have g: "gather dataset n = Inr (column dataset n)" by (rule gather_ok)
  from Cons.prems(3) ts have u: "unify_datatype fp (column dataset n) = Inr t" by force
  with unify_datatype_result have t: "t \<noteq> []" by blast
  from Cons.prems(5) have d: "dict_set types col t = types @ [(col, t)]"
    by (intro dict_set_fresh) auto
  have "infer_columns fp dataset (Suc n) cols (types @ [(col, t)]) (Suc calls) =
          (Suc calls + length cols, Inr ((types @ [(col, t)]) @ zip cols ts'))"
  proof (rule Cons.IH)
    show "\<forall>r\<in>set dataset. Suc n + length cols \<le> length (items r)"
      using Cons.prems(1) by simp
    show "length ts' = length cols" using Cons.prems(2) ts by simp
    show "\<forall>i<length cols. unify_datatype fp (column dataset (Suc n + i)) = Inr (ts' ! i)"
    proof (intro allI impI)
      fix i assume "i < length cols"
      then have "Suc i < length (col # cols)" by simp
      with Cons.prems(3) have "unify_datatype fp (column dataset (n + Suc i)) = Inr (ts ! Suc i)"
        by blast
      with ts show "unify_datatype fp (column dataset (Suc n + i)) = Inr (ts' ! i)" by simp
    qed
    show "distinct cols" using Cons.prems(4) by simp
    show "set cols \<inter> fst ` set (types @ [(col, t)]) = {}"
      using Cons.prems(4,5) by auto
  qed
  with g u t d ts show ?case by simp
qed

text \<open>
  When some record has fewer items than there are fields, the loop ends in an \<open>IndexError\<close>.
\<close>

lemma infer_columns_short:
  assumes "\<forall>t\<in>set dataset. n \<le> length (items t)"
    and "\<exists>t\<in>set dataset. length (items t) < n + length fs"
  shows "\<exists>c e. infer_columns fp dataset n fs types calls = (c, Inl e)"
  using assms
proof (induction fs arbitrary: n types calls)
  case Nil
  then show ?case by fastforce
next
  case (Cons col cols)
  show ?case
  proof (cases "\<exists>t\<in>set dataset. length (items t) \<le> n")
    case True
    then obtain t where "t \<in> set dataset" "length (items t) \<le> n" by blast
    then show ?thesis by (simp add: gather_short)
  next
    case False
    then have long: "\<forall>t\<in>set dataset. Suc n \<le> length (items t)" by auto
    then have g: "gather dataset n = Inr (column dataset n)" by (intro gather_ok) auto
    show ?thesis
    proof (cases "unify_datatype fp (column dataset n)")
      case (Inl e)
      with g show ?thesis by simp
    next
      case (Inr coldef)
      with unify_datatype_result have "coldef \<noteq> []" by blast
      moreover from Cons.prems(2) have "\<exists>t\<in>set dataset. length (items t) < Suc n + length cols"
        by simp
      with long have "\<exists>c e. infer_columns fp dataset (Suc n) cols (dict_set types col coldef)
                        (Suc calls) = (c, Inl e)"
        by (intro Cons.IH)
      ultimately show ?thesis using g Inr by simp
    qed
  qed
qed

subsection \<open>Formatting\<close>

lemma list_update_last: "xs \<noteq> [] \<Longrightarrow> xs[length xs - 1 := x] = butlast xs @ [x]"
  by (induction xs rule: rev_induct) (simp_all add: list_update_append)

lemma rstrip_comma: "t \<noteq> [] \<Longrightarrow> last t \<noteq> CHR '','' \<Longrightarrow> rstrip CHR '','' (s @ t @ '','') = s @ t"
proof -
  assume "t \<noteq> []" and l: "last t \<noteq> CHR '',''"
  then obtain t' where t: "t = t' @ [last t]" by (metis append_butlast_last_id)
  have "rstrip CHR '','' (s @ (t' @ [last t]) @ '','') = s @ t' @ [last t]"
    using l by (simp add: rstrip_def)
  with t show ?thesis by metis
qed

lemma rstrip_header: "rstrip CHR '','' (s @ '' ('') = s @ '' (''"
  by (simp add: rstrip_def)

lemma sql_lines_snoc:
  "sql_lines (types @ [(col, typ)]) = map column_line types @ [''    '' @ col @ '' '' @ typ]"
  by (induction types rule: sql_lines.induct) (simp_all add: column_line_def)

text \<open>
  When no type is empty or ends in a comma, the statement is the one the specification
  describes.
\<close>

lemma format_sql_spec:
  assumes "\<forall>(col, typ)\<in>set types. typ \<noteq> [] \<and> last typ \<noteq> CHR '',''"
  shows "format_sql tablename types = spec_statement tablename types"
proof (cases types rule: rev_cases)
  case Nil
  then show ?thesis
    using rstrip_header [of "''CREATE TABLE '' @ tablename"]
    by (simp add: format_sql_def spec_statement_def)
next
  case (snoc types' ct)
  obtain col ty where ct: "ct = (col, ty)" by (cases ct)
  with assms snoc have ty: "ty \<noteq> []" "last ty \<noteq> CHR '',''" by auto
  let ?h = "''CREATE TABLE '' @ tablename @ '' (''"
  let ?sql = "[?h] @ map column_line types"
  have sql: "?sql = (?h # map column_line types') @ [column_line ct]"
    using snoc by simp
  have "?sql[length ?sql - 1 := rstrip CHR '','' (?sql ! (length ?sql - 1))] =
          (?h # map column_line types') @ [rstrip CHR '','' (column_line ct)]"
    unfolding sql by (simp add: nth_append list_update_append)
  also have "rstrip CHR '','' (column_line ct) = ''    '' @ col @ '' '' @ ty"
    using rstrip_comma [OF ty, of "''    '' @ col @ '' ''"] by (simp add: ct column_line_def)
  finally show ?thesis
    using snoc ct by (simp add: format_sql_def spec_statement_def sql_lines_snoc Let_def)
qed

subsection \<open>After validation\<close>

text \<open>
  Validation looks at the count of records, at their shape and at the names of their
  classes, not at the classes themselves.
\<close>

lemma validation_passes:
  assumes "2 \<le> length dataset"
    and "\<forall>t\<in>set dataset. is_tuple t \<and> fields_attr t \<noteq> None"
    and "\<forall>t\<in>set dataset. class_name t = class_name (hd dataset)"
    and "fields_attr (hd dataset) = Some fs"
  shows "infer_schema_nt_run fp dataset =
           (case infer_columns fp dataset 0 fs [] 0 of
              (calls, Inl e) \<Rightarrow> (calls, Inl e)
            | (calls, Inr types) \<Rightarrow> (calls, Inr (format_sql (class_name (hd dataset)) types)))"
proof -
  from assms(1) obtain row0 rest where ds: "dataset = row0 # rest" by (cases dataset) auto
  from assms(3) have "set (map class_name dataset) = {class_name (hd dataset)}"
    using ds by auto
  then have "card (set (map class_name dataset)) = 1" by simp
  moreover from assms(2) have "list_all (\<lambda>t. is_tuple t \<and> fields_attr t \<noteq> None) dataset"
    by (simp add: list_all_iff)
  moreover from assms(1) have "\<not> length dataset < 2" by simp
  ultimately show ?thesis
    using assms(4) unfolding infer_schema_nt_run_def
    by (simp add: ds split: prod.splits sum.splits)
qed

lemma infer_columns_string_error:
  "infer_columns fp dataset n fs types calls = (c, Inl (IndexError ''string index out of range'')) \<Longrightarrow>
   \<exists>i<length fs. \<exists>vals. gather dataset (n + i) = Inr vals \<and>
      unify_datatype fp vals = Inl (IndexError ''string index out of range'')"
proof (induction fs arbitrary: n types calls)
  case Nil
  then show ?case by simp
next
  case (Cons col cols)
  show ?case
  proof (cases "gather dataset n")
    case (Inl e')
    with Cons.prems gather_error [of dataset n e'] show ?thesis by simp
  next
    case (Inr colvals)
    show ?thesis
    proof (cases "unify_datatype fp colvals")
      case (Inl e')
      with Cons.prems Inr have "e' = IndexError ''string index out of range''" by simp
      with Inl Inr have "gather dataset (n + 0) = Inr colvals \<and>
          unify_datatype fp colvals = Inl (IndexError ''string index out of range'')" by simp
      then show ?thesis by (intro exI [of _ 0]) auto
    next
      case r: (Inr coldef)
      with unify_datatype_result [of fp colvals coldef] have "coldef \<noteq> []" by simp
      with Cons.prems Inr r
      have "infer_columns fp dataset (Suc n) cols (dict_set types col coldef) (Suc calls) =
              (c, Inl (IndexError ''string index out of range''))"
        by simp
      from Cons.IH [OF this] obtain i vals where "i < length cols"
        "gather dataset (Suc n + i) = Inr vals"
        "unify_datatype fp vals = Inl (IndexError ''string index out of range'')" by blast
      then have "Suc i < length (col # cols) \<and> gather dataset (n + Suc i) = Inr vals \<and>
        unify_datatype fp vals = Inl (IndexError ''string index out of range'')" by simp
      then show ?thesis by blast
    qed
  qed
qed

text \<open>
  On a batch of at least two named tuples of one class name whose first record has distinct
  field names, where every record has an item for each field and every column unifies, the
  Schema Inferrer returns the statement that the specification describes: the name of the
  class, then one line per field in the order of the fields, the last without its comma.
\<close>

lemma infer_schema_nt_statement:
  assumes "2 \<le> length dataset"
    and "\<forall>t\<in>set dataset. is_tuple t \<and> fields_attr t \<noteq> None"
    and "\<forall>t\<in>set dataset. class_name t = class_name (hd dataset)"
    and "fields_attr (hd dataset) = Some fs"
    and "distinct fs"
    and "\<forall>t\<in>set dataset. length fs \<le> length (items t)"
    and "length ts = length fs"
    and "\<forall>i<length fs. unify_datatype fp (column dataset i) = Inr (ts ! i)"
  shows "infer_schema_nt fp dataset = Inr (spec_statement (class_name (hd dataset)) (zip fs ts))"
    and "unify_calls fp dataset = length fs"
proof -
  have "infer_columns fp dataset 0 fs [] 0 = (0 + length fs, Inr ([] @ zip fs ts))"
    using assms(5-8) by (intro infer_columns_ok) simp_all
  with validation_passes [OF assms(1-4)]
  have run: "infer_schema_nt_run fp dataset =
               (length fs, Inr (format_sql (class_name (hd dataset)) (zip fs ts)))"
    by simp
  have "\<forall>(col, ty)\<in>set (zip fs ts). ty \<noteq> [] \<and> last ty \<noteq> CHR '',''"
  proof (clarify)
    fix col ty assume "(col, ty) \<in> set (zip fs ts)"
    then obtain i where "i < length fs" "ty = ts ! i"
      using assms(7) by (auto simp: set_zip)
    with assms(8) have "unify_datatype fp (column dataset i) = Inr ty" by simp
    then have "ty \<noteq> [] \<and> last ty \<noteq> CHR '',''" by (rule unify_datatype_result)
    then show "ty \<noteq> [] \<and> last ty \<noteq> CHR '',''" .
  qed
  then have "format_sql (class_name (hd dataset)) (zip fs ts) =
               spec_statement (class_name (hd dataset)) (zip fs ts)"
    by (rule format_sql_spec)
  with run show "infer_schema_nt fp dataset = Inr (spec_statement (class_name (hd dataset)) (zip fs ts))"
    by (simp add: infer_schema_nt_def)
  from run show "unify_calls fp dataset = length fs" by (simp add: unify_calls_def)
qed

text \<open>With no empty string in any record, every column unifies and the statement is returned.\<close>

lemma infer_schema_nt_returns:
  assumes "2 \<le> length dataset"
    and "\<forall>t\<in>set dataset. is_tuple t \<and> fields_attr t \<noteq> None"
    and "\<forall>t\<in>set dataset. class_name t = class_name (hd dataset)"
    and "fields_attr (hd dataset) = Some fs"
    and "distinct fs"
    and "\<forall>t\<in>set dataset. length fs \<le> length (items t)"
    and "\<forall>t\<in>set dataset. PStr [] \<notin> set (items t)"
  shows "\<exists>ts. length ts = length fs \<and>
           (\<forall>i<length fs. unify_datatype fp (column dataset i) = Inr (ts ! i)) \<and>
           infer_schema_nt fp dataset = Inr (spec_statement (class_name (hd dataset)) (zip fs ts))"
proof -
  have "\<exists>ty. unify_datatype fp (column dataset i) = Inr ty" if "i < length fs" for i
  proof (rule unify_datatype_returns)
    show "PStr [] \<notin> set (column dataset i)"
    proof
      assume "PStr [] \<in> set (column dataset i)"
      then obtain t where t: "t \<in> set dataset" "items t ! i = PStr []"
        by (auto simp: column_def)
      with assms(6) that have "i < length (items t)" by force
      with t have "PStr [] \<in> set (items t)" by (metis nth_mem)
      with assms(7) t show False by blast
    qed
  qed
  then have "\<forall>i<length fs. \<exists>ty. unify_datatype fp (column dataset i) = Inr ty" by blast
  then obtain f where f: "\<forall>i<length fs. unify_datatype fp (column dataset i) = Inr (f i)"
    by metis
  let ?ts = "map f [0..<length fs]"
  have "length ?ts = length fs" by simp
  moreover from f have u: "\<forall>i<length fs. unify_datatype fp (column dataset i) = Inr (?ts ! i)"
    by simp
  ultimately have "infer_schema_nt fp dataset =
      Inr (spec_statement (class_name (hd dataset)) (zip fs ?ts))"
    using assms(1-6) by (intro infer_schema_nt_statement)
  with u show ?thesis by (intro exI [of _ ?ts]) simp
qed

text \<open>\<open>UnunifiableColumn\<close> is never raised.\<close>

lemma never_ununifiable: "infer_schema_nt fp dataset \<noteq> Inl (UnunifiableColumn col)"
proof
  assume a: "infer_schema_nt fp dataset = Inl (UnunifiableColumn col)"
  have "\<forall>c. infer_columns fp dataset 0 fs [] 0 \<noteq> (c, Inl (UnunifiableColumn col))" for fs
    using infer_columns_error [of fp dataset 0 fs "[]" 0] by (auto simp: UnunifiableColumn_def)
  with a show False
    by (auto simp: infer_schema_nt_def infer_schema_nt_run_def InsufficientData_def
          NotUniformRecordShape_def MixedRecordTypes_def UnunifiableColumn_def
          split: if_splits list.splits option.splits prod.splits sum.splits)
qed

text \<open>
  Claim C9 (the code departs from it). The batch \<open>[Note(id=1, note=''), Note(id=2,
  note='hello')]\<close> is valid: two records of one named-tuple class. The claim's output is the
  statement with the lines \<open>id SMALLINT,\<close> and \<open>note TEXT\<close>; the code returns no string: the
  column \<open>note\<close> makes the Type Unifier raise \<open>IndexError\<close>.
\<close>

theorem valid_batch_raises:
  "infer_schema_nt fp
     [namedtuple 1 ''Note'' [''id'', ''note''] [PInt 1, PStr ''''],
      namedtuple 1 ''Note'' [''id'', ''note''] [PInt 2, PStr ''hello'']]
   = Inl (IndexError ''string index out of range'')"
  by code_simp

text \<open>
  Claim C10. Let a batch have at least two records, all of them tuples with \<open>_fields\<close>, and
  all of classes with one name; the classes themselves (\<open>class_id\<close>) may differ. Then
  \<open>MixedRecordTypes\<close> is not raised. If a record has fewer items than the first record has
  fields, the call ends in an \<open>IndexError\<close>, which is none of the four \<open>ValueError\<close>s of
  validation: the one of the tuple subscript, unless the Type Unifier raised on an earlier
  column. If every record has an item for each field of the first record and every column
  unifies, the statement has the class name and the fields of the first record.
\<close>

theorem same_name_types_pass:
  assumes "2 \<le> length dataset"
    and "\<forall>t\<in>set dataset. is_tuple t \<and> fields_attr t \<noteq> None"
    and "\<forall>t\<in>set dataset. class_name t = class_name (hd dataset)"
    and "fields_attr (hd dataset) = Some fs"
  shows "infer_schema_nt fp dataset \<noteq> Inl MixedRecordTypes \<and>
         ((\<exists>t\<in>set dataset. length (items t) < length fs) \<longrightarrow>
            infer_schema_nt fp dataset = Inl (IndexError ''tuple index out of range'') \<or>
            infer_schema_nt fp dataset = Inl (IndexError ''string index out of range'')) \<and>
         ((\<exists>t\<in>set dataset. length (items t) < length fs) \<and>
          (\<forall>n<length fs. \<forall>vals. gather dataset n = Inr vals \<longrightarrow>
             unify_datatype fp vals \<noteq> Inl (IndexError ''string index out of range'')) \<longrightarrow>
            infer_schema_nt fp dataset = Inl (IndexError ''tuple index out of range'')) \<and>
         (distinct fs \<and> (\<forall>t\<in>set dataset. length fs \<le> length (items t)) \<and>
          length ts = length fs \<and>
          (\<forall>i<length fs. unify_datatype fp (column dataset i) = Inr (ts ! i)) \<longrightarrow>
            infer_schema_nt fp dataset = Inr (spec_statement (class_name (hd dataset)) (zip fs ts)))"
proof -
  note run = validation_passes [OF assms]
  obtain c r where ic: "infer_columns fp dataset 0 fs [] 0 = (c, r)" by (cases "infer_columns fp dataset 0 fs [] 0")
  have mixed: "infer_schema_nt fp dataset \<noteq> Inl MixedRecordTypes"
  proof (cases r)
    case (Inl e)
    with ic infer_columns_error [of fp dataset 0 fs "[]" 0 c e] run show ?thesis
      by (auto simp: infer_schema_nt_def MixedRecordTypes_def)
  next
    case (Inr types)
    with ic run show ?thesis by (simp add: infer_schema_nt_def)
  qed
  have short: "infer_schema_nt fp dataset = Inl (IndexError ''tuple index out of range'') \<or>
      infer_schema_nt fp dataset = Inl (IndexError ''string index out of range'')"
    if "\<exists>t\<in>set dataset. length (items t) < length fs"
  proof -
    from that have "\<exists>c e. infer_columns fp dataset 0 fs [] 0 = (c, Inl e)"
      by (intro infer_columns_short) simp_all
    then obtain c' e where e: "infer_columns fp dataset 0 fs [] 0 = (c', Inl e)" by blast
    from infer_columns_error [OF e] e run show ?thesis
      by (auto simp: infer_schema_nt_def)
  qed
  have tuple: "infer_schema_nt fp dataset = Inl (IndexError ''tuple index out of range'')"
    if s: "\<exists>t\<in>set dataset. length (items t) < length fs"
      and u: "\<forall>n<length fs. \<forall>vals. gather dataset n = Inr vals \<longrightarrow>
             unify_datatype fp vals \<noteq> Inl (IndexError ''string index out of range'')"
  proof (rule ccontr)
    assume "infer_schema_nt fp dataset \<noteq> Inl (IndexError ''tuple index out of range'')"
    with short [OF s] have "infer_schema_nt fp dataset = Inl (IndexError ''string index out of range'')"
      by simp
    with run have "\<exists>c. infer_columns fp dataset 0 fs [] 0 = (c, Inl (IndexError ''string index out of range''))"
      by (auto simp: infer_schema_nt_def split: prod.splits sum.splits)
    then obtain c' where "infer_columns fp dataset 0 fs [] 0 = (c', Inl (IndexError ''string index out of range''))" ..
    from infer_columns_string_error [OF this] u show False by auto
  qed
  have ok: "infer_schema_nt fp dataset = Inr (spec_statement (class_name (hd dataset)) (zip fs ts))"
    if "distinct fs" "\<forall>t\<in>set dataset. length fs \<le> length (items t)" "length ts = length fs"
       "\<forall>i<length fs. unify_datatype fp (column dataset i) = Inr (ts ! i)"
    using assms that by (rule infer_schema_nt_statement(1))
  from mixed short tuple ok show ?thesis by blast
qed

theorem same_name_types_pass_witness:
  "\<forall>fp.
   class_id (namedtuple 1 ''Point'' [''x'', ''y''] [PInt 1, PInt 2])
     \<noteq> class_id (namedtuple 2 ''Point'' [''x''] [PInt 3]) \<and>
   class_name (namedtuple 1 ''Point'' [''x'', ''y''] [PInt 1, PInt 2])
     = class_name (namedtuple 2 ''Point'' [''x''] [PInt 3]) \<and>
   infer_schema_nt fp
     [namedtuple 1 ''Point'' [''x'', ''y''] [PInt 1, PInt 2],
      namedtuple 2 ''Point'' [''x''] [PInt 3]] \<noteq> Inl MixedRecordTypes \<and>
   infer_schema_nt fp
     [namedtuple 1 ''Point'' [''x'', ''y''] [PInt 1, PInt 2],
      namedtuple 2 ''Point'' [''x''] [PInt 3]] = Inl (IndexError ''tuple index out of range'') \<and>
   infer_schema_nt fp
     [namedtuple 1 ''Point'' [''x'', ''y''] [PInt 1, PInt 2],
      namedtuple 2 ''Point'' [''u'', ''v'', ''w''] [PInt 3, PInt 4, PInt 5]]
     = Inr (''CREATE TABLE Point ('' @ newline @
            ''    x SMALLINT,'' @ newline @
            ''    y SMALLINT'' @ newline @
            '');'')"
proof
  fix fp
  let ?A = "namedtuple 1 ''Point'' [''x'', ''y''] [PInt 1, PInt 2]"
  let ?B = "namedtuple 2 ''Point'' [''x''] [PInt 3]"
  let ?C = "namedtuple 2 ''Point'' [''u'', ''v'', ''w''] [PInt 3, PInt 4, PInt 5]"
  let ?fs = "[''x'', ''y'']"
  have u0: "unify_datatype fp [PInt 1, PInt 3] = Inr ''SMALLINT''" by code_simp
  have u1: "unify_datatype fp [PInt 2, PInt 4] = Inr ''SMALLINT''" by code_simp
  have ids: "class_id ?A \<noteq> class_id ?B \<and> class_name ?A = class_name ?B"
    by (simp add: namedtuple_def)
  have b1: "2 \<le> length [?A, ?B]" by simp
  have b2: "\<forall>t\<in>set [?A, ?B]. is_tuple t \<and> fields_attr t \<noteq> None"
    by (simp add: namedtuple_def)
  have b3: "\<forall>t\<in>set [?A, ?B]. class_name t = class_name (hd [?A, ?B])"
    by (simp add: namedtuple_def)
  have b4: "fields_attr (hd [?A, ?B]) = Some ?fs" by (simp add: namedtuple_def)
  have b5: "\<exists>t\<in>set [?A, ?B]. length (items t) < length ?fs" by (simp add: namedtuple_def)
  have b6: "\<forall>n<length ?fs. \<forall>vals. gather [?A, ?B] n = Inr vals \<longrightarrow>
              unify_datatype fp vals \<noteq> Inl (IndexError ''string index out of range'')"
    using u0 by (auto simp: less_Suc_eq namedtuple_def getitem_def)
  from same_name_types_pass [OF b1 b2 b3 b4, of fp] b5 b6
  have short: "infer_schema_nt fp [?A, ?B] \<noteq> Inl MixedRecordTypes \<and>
               infer_schema_nt fp [?A, ?B] = Inl (IndexError ''tuple index out of range'')"
    by blast
  have c1: "2 \<le> length [?A, ?C]" by simp
  have c2: "\<forall>t\<in>set [?A, ?C]. is_tuple t \<and> fields_attr t \<noteq> None"
    by (simp add: namedtuple_def)
  have c3: "\<forall>t\<in>set [?A, ?C]. class_name t = class_name (hd [?A, ?C])"
    by (simp add: namedtuple_def)
  have c4: "fields_attr (hd [?A, ?C]) = Some ?fs" by (simp add: namedtuple_def)
  have c5: "distinct ?fs \<and> (\<forall>t\<in>set [?A, ?C]. length ?fs \<le> length (items t)) \<and>
            length [''SMALLINT'', ''SMALLINT''] = length ?fs \<and>
            (\<forall>i<length ?fs. unify_datatype fp (column [?A, ?C] i)
                = Inr ([''SMALLINT'', ''SMALLINT''] ! i))"
    using u0 u1 by (auto simp: less_Suc_eq namedtuple_def column_def)
  from same_name_types_pass [OF c1 c2 c3 c4, of fp "[''SMALLINT'', ''SMALLINT'']"] c5
  have "infer_schema_nt fp [?A, ?C] =
          Inr (spec_statement (class_name (hd [?A, ?C])) (zip ?fs [''SMALLINT'', ''SMALLINT'']))"
    by blast
  then have long: "infer_schema_nt fp [?A, ?C] =
      Inr (''CREATE TABLE Point ('' @ newline @ ''    x SMALLINT,'' @ newline @
           ''    y SMALLINT'' @ newline @ '');'')"
    by (simp add: spec_statement_def namedtuple_def)
  from ids short long
  show "class_id (namedtuple 1 ''Point'' [''x'', ''y''] [PInt 1, PInt 2])
     \<noteq> class_id (namedtuple 2 ''Point'' [''x''] [PInt 3]) \<and>
   class_name (namedtuple 1 ''Point'' [''x'', ''y''] [PInt 1, PInt 2])
     = class_name (namedtuple 2 ''Point'' [''x''] [PInt 3]) \<and>
   infer_schema_nt fp
     [namedtuple 1 ''Point'' [''x'', ''y''] [PInt 1, PInt 2],
      namedtuple 2 ''Point'' [''x''] [PInt 3]] \<noteq> Inl MixedRecordTypes \<and>
   infer_schema_nt fp
     [namedtuple 1 ''Point'' [''x'', ''y''] [PInt 1, PInt 2],
      namedtuple 2 ''Point'' [''x''] [PInt 3]] = Inl (IndexError ''tuple index out of range'') \<and>
   infer_schema_nt fp
     [namedtuple 1 ''Point'' [''x'', ''y''] [PInt 1, PInt 2],
      namedtuple 2 ''Point'' [''u'', ''v'', ''w''] [PInt 3, PInt 4, PInt 5]]
     = Inr (''CREATE TABLE Point ('' @ newline @
            ''    x SMALLINT,'' @ newline @
            ''    y SMALLINT'' @ newline @
            '');'')"
    by blast
qed

end
